theory Spec2Isabelle
  imports Main "HOL-Library.Multiset"
begin

section \<open>Data model\<close>

text \<open>
  The handlers of \<^verbatim>\<open>backend/core/api.py\<close> read and write five tables through the
  object-relational layer: users, permissions, the many-to-many table behind
  \<^verbatim>\<open>user.user_permissions\<close>, exercises and lifts. A table is the list of its rows in
  insertion order; a row is a record whose first field is the primary key.
\<close>

record user_row =
  user_id :: nat
  username :: string
  password :: string
  first_name :: string
  last_name :: string
  is_staff :: bool
  is_active :: bool

record permission =
  perm_id :: nat
  codename :: string

record exercise =
  exercise_id :: nat
  exercise_name :: string
  created_by :: nat
  date_created :: nat

text \<open>A date is its proleptic ordinal (a day number), which is how dates compare.\<close>

record lift =
  lift_id :: nat
  lift_user :: nat
  lift_date :: int
  lift_exercise :: nat
  repetitions :: int
  weight :: int

record store =
  users :: "user_row list"
  permissions :: "permission list"
  user_permissions :: "(nat \<times> nat) list"
  exercises :: "exercise list"
  lifts :: "lift list"

text \<open>
  The session of a request either carries no user (\<open>Anonymous\<close>) or the two keys the
  authentication framework writes at login: the primary key of the user and the
  session hash derived from that user's stored password hash.
\<close>

datatype session = Anonymous | Authenticated nat string

datatype exn =
    DoesNotExist
  | MultipleObjectsReturned
  | IntegrityError string
  | ValueError string
  | ValidationError "string list"

datatype body =
    Detail string
  | LiftList "lift list"
  | UserProfile user_row

type_synonym response = "nat \<times> body"

type_synonym outcome = "store \<times> session \<times> response"

text \<open>
  The external collaborators, passed to every handler: the password hasher
  (\<^verbatim>\<open>make_password\<close>, \<^verbatim>\<open>check_password\<close>), the keyed digest of a stored password
  hash that a session remembers (\<^verbatim>\<open>get_session_auth_hash\<close>), the password-strength
  validator, which yields the list of its messages (empty when the password passes),
  the normal form the user manager gives a username, and the text the storage engine
  reports for a violated uniqueness constraint. \<^verbatim>\<open>check_password\<close> is a test only: the
  re-hashing of a stored password under changed hasher settings is left out.
\<close>

record env =
  make_password :: "string \<Rightarrow> string"
  check_password :: "string \<Rightarrow> string \<Rightarrow> bool"
  session_auth_hash :: "string \<Rightarrow> string"
  validate_password :: "string \<Rightarrow> string list"
  normalize_username :: "string \<Rightarrow> string"
  unique_violation :: string

section \<open>Request payloads\<close>

record CreateLiftSchema =
  cl_exercise_id :: nat
  cl_date :: int
  cl_repetitions :: int
  cl_weight :: int

record CreateUser =
  cu_username :: string
  cu_password :: string
  cu_first_name :: string
  cu_last_name :: string

record Login =
  login_username :: string
  login_password :: string

record ChangePassword =
  current_password :: string
  new_password :: string

section \<open>Session authentication\<close>

text \<open>
  \<^verbatim>\<open>request.user\<close>: the user row whose primary key the session carries, provided the
  row exists, is active, and the session hash equals the digest of the row's current
  password hash. A session whose hash no longer matches is flushed.
\<close>

definition get_user :: "env \<Rightarrow> store \<Rightarrow> session \<Rightarrow> user_row option \<times> session" where
  "get_user e s sess =
     (case sess of
        Anonymous \<Rightarrow> (None, Anonymous)
      | Authenticated uid h \<Rightarrow>
          (case find (\<lambda>u. user_id u = uid) (users s) of
             None \<Rightarrow> (None, sess)
           | Some u \<Rightarrow>
               if \<not> is_active u then (None, sess)
               else if h = session_auth_hash e (password u) then (Some u, sess)
               else (None, Anonymous)))"

definition unauthorized :: response where
  "unauthorized = (401, Detail ''Unauthorized'')"

text \<open>
  \<^verbatim>\<open>auth=session_auth\<close>: the handler runs only for an authenticated \<^verbatim>\<open>request.user\<close>;
  otherwise the request is answered 401 and the store is left as it is.
\<close>

definition session_auth ::
  "env \<Rightarrow> store \<Rightarrow> session \<Rightarrow> (user_row \<Rightarrow> outcome) \<Rightarrow> outcome" where
  "session_auth e s sess handler =
     (case get_user e s sess of
        (None, sess') \<Rightarrow> (s, sess', unauthorized)
      | (Some u, sess') \<Rightarrow> handler u)"

section \<open>Exceptions and their responses\<close>

text \<open>\<^verbatim>\<open>" ".join(messages)\<close>\<close>

fun join_messages :: "string list \<Rightarrow> string" where
  "join_messages [] = []"
| "join_messages [m] = m"
| "join_messages (m # ms) = m @ '' '' @ join_messages ms"

text \<open>
  The three process-wide exception handlers answer 400: an integrity error and a value
  error with their text, a validation error with its messages joined by spaces. An
  exception with no handler (the two exceptions of \<^verbatim>\<open>get\<close>) leaves the request with a
  server error, status 500.
\<close>

definition exception_response :: "exn \<Rightarrow> response" where
  "exception_response ex =
     (case ex of
        IntegrityError m \<Rightarrow> (400, Detail m)
      | ValueError m \<Rightarrow> (400, Detail m)
      | ValidationError ms \<Rightarrow> (400, Detail (join_messages ms))
      | DoesNotExist \<Rightarrow> (500, Detail ''Server Error'')
      | MultipleObjectsReturned \<Rightarrow> (500, Detail ''Server Error''))"

section \<open>Store operations\<close>

text \<open>A new row takes a primary key above every key of its table.\<close>

definition fresh_id :: "nat list \<Rightarrow> nat" where
  "fresh_id ids = Suc (fold max ids 0)"

text \<open>
  A store operation that can raise returns the store as it stands when it stops,
  together with the exception or the value.
\<close>

type_synonym 'a tx = "store \<Rightarrow> store \<times> (exn + 'a)"

text \<open>
  \<^verbatim>\<open>with transaction.atomic():\<close> an exception that leaves the block discards every
  write the block made and goes on to the caller; a block that ends keeps its writes.
\<close>

definition atomic :: "'a tx \<Rightarrow> 'a tx" where
  "atomic block s =
     (case block s of
        (s', Inl ex) \<Rightarrow> (s, Inl ex)
      | (s', Inr v) \<Rightarrow> (s', Inr v))"

text \<open>
  \<^verbatim>\<open>get_user_model().objects.create_user(...)\<close>: the user manager normalises the
  username, hashes the password and inserts the row; the username column is unique, so
  a second row of the same username is an integrity error.
\<close>

definition objects_create_user ::
  "env \<Rightarrow> bool \<Rightarrow> string \<Rightarrow> string \<Rightarrow> string \<Rightarrow> string \<Rightarrow> user_row tx" where
  "objects_create_user e staff fname lname name pw s =
     (let u = \<lparr> user_id = fresh_id (map user_id (users s)),
                username = normalize_username e name,
                password = make_password e pw,
                first_name = fname,
                last_name = lname,
                is_staff = staff,
                is_active = True \<rparr>
      in if username u \<in> set (map username (users s))
         then (s, Inl (IntegrityError (unique_violation e)))
         else (s\<lparr>users := users s @ [u]\<rparr>, Inr u))"

text \<open>
  \<^verbatim>\<open>Permission.objects.get(codename=c)\<close>: the one permission row of that codename;
  no row and several rows are the two exceptions of \<^verbatim>\<open>get\<close>.
\<close>

definition permission_get :: "string \<Rightarrow> store \<Rightarrow> exn + permission" where
  "permission_get c s =
     (case filter (\<lambda>p. codename p = c) (permissions s) of
        [] \<Rightarrow> Inl DoesNotExist
      | [p] \<Rightarrow> Inr p
      | _ \<Rightarrow> Inl MultipleObjectsReturned)"

text \<open>
  \<^verbatim>\<open>u.user_permissions.add(p)\<close>: a row of the many-to-many table, written at once and
  only when the pair is not there yet.
\<close>

definition user_permissions_add :: "nat \<Rightarrow> permission \<Rightarrow> store \<Rightarrow> store" where
  "user_permissions_add uid p s =
     (if (uid, perm_id p) \<in> set (user_permissions s) then s
      else s\<lparr>user_permissions := user_permissions s @ [(uid, perm_id p)]\<rparr>)"

text \<open>
  The statements \<^verbatim>\<open>u.user_permissions.add(Permission.objects.get(codename=c))\<close>, one
  after the other for the codenames given; the first \<^verbatim>\<open>get\<close> that raises stops the
  sequence, with the earlier grants written.
\<close>

fun grant :: "nat \<Rightarrow> string list \<Rightarrow> unit tx" where
  "grant uid [] s = (s, Inr ())"
| "grant uid (c # cs) s =
     (case permission_get c s of
        Inl ex \<Rightarrow> (s, Inl ex)
      | Inr p \<Rightarrow> grant uid cs (user_permissions_add uid p s))"

text \<open>
  \<^verbatim>\<open>user.save()\<close>: the columns of the row with the user's primary key are overwritten
  by the fields of the object; an object with no row yet is inserted.
\<close>

definition save :: "user_row \<Rightarrow> store \<Rightarrow> store" where
  "save u s =
     (if filter (\<lambda>r. user_id r = user_id u) (users s) = []
      then s\<lparr>users := users s @ [u]\<rparr>
      else s\<lparr>users := map (\<lambda>r. if user_id r = user_id u then u else r) (users s)\<rparr>)"

text \<open>The permission rows a user holds: the join over the many-to-many table.\<close>

definition permissions_of :: "store \<Rightarrow> nat \<Rightarrow> permission list" where
  "permissions_of s uid =
     filter (\<lambda>p. (uid, perm_id p) \<in> set (user_permissions s)) (permissions s)"

section \<open>Lifts\<close>

text \<open>\<^verbatim>\<open>Lift.objects.filter(user=request.user).order_by("date")\<close>\<close>

definition list_lifts :: "env \<Rightarrow> store \<Rightarrow> session \<Rightarrow> outcome" where
  "list_lifts e s sess =
     session_auth e s sess (\<lambda>u.
       (s, sess,
        (200, LiftList (sort_key lift_date (filter (\<lambda>l. lift_user l = user_id u) (lifts s))))))"

text \<open>
  \<^verbatim>\<open>Exercise.objects.get(id=...)\<close> is a lookup by primary key: the row of that key, or
  \<^verbatim>\<open>Exercise.DoesNotExist\<close>, which the handler catches.
\<close>

definition create_lift :: "env \<Rightarrow> store \<Rightarrow> session \<Rightarrow> CreateLiftSchema \<Rightarrow> outcome" where
  "create_lift e s sess payload =
     session_auth e s sess (\<lambda>u.
       case find (\<lambda>x. exercise_id x = cl_exercise_id payload) (exercises s) of
         None \<Rightarrow> (s, sess, (404, Detail ''Exercise not found.''))
       | Some x \<Rightarrow>
           (s\<lparr>lifts := lifts s @
                [\<lparr> lift_id = fresh_id (map lift_id (lifts s)),
                   lift_user = user_id u,
                   lift_date = cl_date payload,
                   lift_exercise = exercise_id x,
                   repetitions = cl_repetitions payload,
                   weight = cl_weight payload \<rparr>]\<rparr>,
            sess,
            (201, Detail ''Lift created successfully.'')))"

section \<open>Users\<close>

definition registration_codenames :: "string list" where
  "registration_codenames =
     [''add_category'', ''view_category'', ''add_exercise'', ''view_exercise'',
      ''add_lift'', ''view_lift'']"

text \<open>The body of the \<^verbatim>\<open>with transaction.atomic():\<close> block of \<^verbatim>\<open>create_user\<close>.\<close>

definition registration_block :: "env \<Rightarrow> CreateUser \<Rightarrow> unit tx" where
  "registration_block e payload s =
     (case objects_create_user e True (cu_first_name payload) (cu_last_name payload)
             (cu_username payload) (cu_password payload) s of
        (s1, Inl ex) \<Rightarrow> (s1, Inl ex)
      | (s1, Inr u) \<Rightarrow>
          (case grant (user_id u) registration_codenames s1 of
             (s2, Inl ex) \<Rightarrow> (s2, Inl ex)
           | (s2, Inr _) \<Rightarrow> (save u s2, Inr ())))"

definition create_user :: "env \<Rightarrow> store \<Rightarrow> session \<Rightarrow> CreateUser \<Rightarrow> outcome" where
  "create_user e s sess payload =
     (if filter (\<lambda>u. username u = cu_username payload) (users s) \<noteq> []
      then (s, sess, (400, Detail ''Username is already used.''))
      else
        (case atomic (registration_block e payload) s of
           (s', Inl ex) \<Rightarrow> (s', sess, exception_response ex)
         | (s', Inr _) \<Rightarrow> (s', sess, (201, Detail ''Success.''))))"

definition retrieve_current_user :: "env \<Rightarrow> store \<Rightarrow> session \<Rightarrow> outcome" where
  "retrieve_current_user e s sess =
     session_auth e s sess (\<lambda>u. (s, sess, (200, UserProfile u)))"

text \<open>
  \<^verbatim>\<open>authenticate(request, username=..., password=...)\<close>: the user of that username
  when the password checks against the stored hash and the user is active.
\<close>

definition authenticate :: "env \<Rightarrow> store \<Rightarrow> string \<Rightarrow> string \<Rightarrow> user_row option" where
  "authenticate e s name pw =
     (case find (\<lambda>u. username u = name) (users s) of
        None \<Rightarrow> None
      | Some u \<Rightarrow>
          if check_password e pw (password u) \<and> is_active u then Some u else None)"

text \<open>\<^verbatim>\<open>django_login\<close> binds the session to the user and to the user's session hash.\<close>

definition django_login :: "env \<Rightarrow> session \<Rightarrow> user_row \<Rightarrow> session" where
  "django_login e sess u = Authenticated (user_id u) (session_auth_hash e (password u))"

text \<open>\<^verbatim>\<open>django_logout\<close> flushes the session, whatever it held.\<close>

definition django_logout :: "session \<Rightarrow> session" where
  "django_logout sess = Anonymous"

definition login :: "env \<Rightarrow> store \<Rightarrow> session \<Rightarrow> Login \<Rightarrow> outcome" where
  "login e s sess payload =
     (case authenticate e s (login_username payload) (login_password payload) of
        Some user \<Rightarrow> (s, django_login e sess user, (200, Detail ''Success.''))
      | None \<Rightarrow> (s, sess, (400, Detail ''Invalid credentials.'')))"

definition logout :: "env \<Rightarrow> store \<Rightarrow> session \<Rightarrow> outcome" where
  "logout e s sess = (s, django_logout sess, (200, Detail ''Success.''))"

text \<open>
  \<^verbatim>\<open>update_session_auth_hash(request, user)\<close>: when the session's user is \<open>user\<close>, the
  session hash becomes the digest of the user's present password hash.
\<close>

definition update_session_auth_hash :: "env \<Rightarrow> session \<Rightarrow> user_row \<Rightarrow> session" where
  "update_session_auth_hash e sess u =
     (case sess of
        Anonymous \<Rightarrow> Anonymous
      | Authenticated uid h \<Rightarrow>
          if uid = user_id u then Authenticated uid (session_auth_hash e (password u))
          else sess)"

text \<open>
  \<^verbatim>\<open>validate_password\<close> raises a validation error holding its messages when there are
  any; the exception leaves the handler at that statement.
\<close>

definition change_password :: "env \<Rightarrow> store \<Rightarrow> session \<Rightarrow> ChangePassword \<Rightarrow> outcome" where
  "change_password e s sess payload =
     session_auth e s sess (\<lambda>user.
       if \<not> check_password e (current_password payload) (password user)
       then (s, sess, (400, Detail ''Current password is incorrect.''))
       else
         (case validate_password e (new_password payload) of
            m # ms \<Rightarrow> (s, sess, exception_response (ValidationError (m # ms)))
          | [] \<Rightarrow>
              (let user' = user\<lparr>password := make_password e (new_password payload)\<rparr>;
                   s' = save user' s
               in (s', update_session_auth_hash e sess user',
                   (200, Detail ''Password changed successfully.'')))))"

section \<open>Reading an outcome\<close>

definition response_lifts :: "outcome \<Rightarrow> lift list" where
  "response_lifts out = (case snd (snd (snd out)) of LiftList ls \<Rightarrow> ls | _ \<Rightarrow> [])"

definition status :: "outcome \<Rightarrow> nat" where
  "status out = fst (snd (snd out))"

definition detail :: "outcome \<Rightarrow> string" where
  "detail out = (case snd (snd (snd out)) of Detail d \<Rightarrow> d | _ \<Rightarrow> [])"

definition store_after :: "outcome \<Rightarrow> store" where
  "store_after out = fst out"

definition session_after :: "outcome \<Rightarrow> session" where
  "session_after out = fst (snd out)"

definition date_ascending :: "lift list \<Rightarrow> bool" where
  "date_ascending ls = sorted (map lift_date ls)"

definition date_descending :: "lift list \<Rightarrow> bool" where
  "date_descending ls = sorted (rev (map lift_date ls))"

text \<open>
  Constraints the storage engine keeps on these tables: permission rows have distinct
  primary keys, usernames are unique, and every row of the many-to-many table refers
  to a user row.
\<close>

definition permission_keys_distinct :: "store \<Rightarrow> bool" where
  "permission_keys_distinct s = distinct (map perm_id (permissions s))"

definition usernames_unique :: "store \<Rightarrow> bool" where
  "usernames_unique s = distinct (map username (users s))"

definition grants_refer_to_users :: "store \<Rightarrow> bool" where
  "grants_refer_to_users s =
     list_all (\<lambda>g. fst g \<in> set (map user_id (users s))) (user_permissions s)"

section \<open>Concrete stores\<close>

definition env0 :: env where
  "env0 = \<lparr> make_password = (\<lambda>p. ''pbkdf2$'' @ p),
            check_password = (\<lambda>p h. h = ''pbkdf2$'' @ p),
            session_auth_hash = (\<lambda>h. ''hmac$'' @ h),
            validate_password =
              (\<lambda>p. if length p < 8 then [''This password is too short.''] else []),
            normalize_username = (\<lambda>n. n),
            unique_violation = ''UNIQUE constraint failed: auth_user.username'' \<rparr>"

definition alice :: user_row where
  "alice = \<lparr> user_id = 1, username = ''alice'', password = ''pbkdf2$secret-a'',
             first_name = ''A'', last_name = ''L'', is_staff = True, is_active = True \<rparr>"

definition bob :: user_row where
  "bob = \<lparr> user_id = 2, username = ''bob'', password = ''pbkdf2$secret-b'',
           first_name = ''B'', last_name = ''O'', is_staff = True, is_active = True \<rparr>"

definition squat :: exercise where
  "squat = \<lparr> exercise_id = 1, exercise_name = ''Squat'', created_by = 1, date_created = 5 \<rparr>"

definition lift_a1 :: lift where
  "lift_a1 = \<lparr> lift_id = 1, lift_user = 1, lift_date = 738000, lift_exercise = 1,
               repetitions = 5, weight = 100 \<rparr>"

definition lift_b1 :: lift where
  "lift_b1 = \<lparr> lift_id = 2, lift_user = 2, lift_date = 738001, lift_exercise = 1,
               repetitions = 8, weight = 60 \<rparr>"

definition lift_a2 :: lift where
  "lift_a2 = \<lparr> lift_id = 3, lift_user = 1, lift_date = 738002, lift_exercise = 1,
               repetitions = 5, weight = 105 \<rparr>"

definition permission_table :: "permission list" where
  "permission_table =
     [\<lparr> perm_id = 1, codename = ''add_category'' \<rparr>,
      \<lparr> perm_id = 2, codename = ''change_category'' \<rparr>,
      \<lparr> perm_id = 3, codename = ''view_category'' \<rparr>,
      \<lparr> perm_id = 4, codename = ''add_exercise'' \<rparr>,
      \<lparr> perm_id = 5, codename = ''view_exercise'' \<rparr>,
      \<lparr> perm_id = 6, codename = ''add_lift'' \<rparr>,
      \<lparr> perm_id = 7, codename = ''delete_lift'' \<rparr>,
      \<lparr> perm_id = 8, codename = ''view_lift'' \<rparr>]"

definition store0 :: store where
  "store0 = \<lparr> users = [alice, bob], permissions = permission_table,
              user_permissions = [(1, 1), (2, 8)],
              exercises = [squat], lifts = [lift_a2, lift_b1, lift_a1] \<rparr>"

text \<open>A store whose permission table lacks \<^verbatim>\<open>view_lift\<close>.\<close>

definition store1 :: store where
  "store1 = \<lparr> users = [alice], permissions = butlast permission_table,
              user_permissions = [], exercises = [], lifts = [] \<rparr>"

definition alice_session :: session where
  "alice_session = Authenticated 1 ''hmac$pbkdf2$secret-a''"

definition carol_payload :: CreateUser where
  "carol_payload = \<lparr> cu_username = ''carol'', cu_password = ''secret-c'',
                     cu_first_name = ''C'', cu_last_name = ''A'' \<rparr>"

definition carol :: user_row where
  "carol = \<lparr> user_id = 3, username = ''carol'', password = ''pbkdf2$secret-c'',
             first_name = ''C'', last_name = ''A'', is_staff = True, is_active = True \<rparr>"

definition alice_payload :: CreateUser where
  "alice_payload = \<lparr> cu_username = ''alice'', cu_password = ''another'',
                     cu_first_name = ''A'', cu_last_name = ''Z'' \<rparr>"

definition squat_payload :: CreateLiftSchema where
  "squat_payload = \<lparr> cl_exercise_id = 1, cl_date = 738005, cl_repetitions = 3,
                     cl_weight = 110 \<rparr>"

definition missing_payload :: CreateLiftSchema where
  "missing_payload = \<lparr> cl_exercise_id = 9, cl_date = 738005, cl_repetitions = 3,
                       cl_weight = 110 \<rparr>"

definition wrong_login :: Login where
  "wrong_login = \<lparr> login_username = ''alice'', login_password = ''guess'' \<rparr>"

definition strong_change :: ChangePassword where
  "strong_change = \<lparr> current_password = ''secret-a'', new_password = ''correct horse'' \<rparr>"

definition weak_change :: ChangePassword where
  "weak_change = \<lparr> current_password = ''secret-a'', new_password = ''short'' \<rparr>"

section \<open>Facts about lists and keys\<close>

lemma find_None_map: "find (\<lambda>x. f x = k) xs = None \<longleftrightarrow> k \<notin> set (map f xs)"
  by (induction xs) auto

lemma find_Some_key: "find (\<lambda>x. f x = k) xs = Some x \<Longrightarrow> f x = k"
  by (induction xs) (auto split: if_splits)

lemma find_Some_filter:
  "find P xs = Some x \<Longrightarrow> filter P xs \<noteq> []"
  by (induction xs) (simp_all split: if_splits)

lemma find_map_replace:
  "find (\<lambda>r. user_id r = k) xs = Some u \<Longrightarrow> user_id u' = k \<Longrightarrow>
   find (\<lambda>r. user_id r = k) (map (\<lambda>r. if user_id r = k then u' else r) xs) = Some u'"
  by (induction xs) (simp_all split: if_splits)

lemma length_filter_distinct_key:
  "distinct (map f xs) \<Longrightarrow> k \<in> set (map f xs) \<Longrightarrow> length (filter (\<lambda>x. f x = k) xs) = 1"
proof (induction xs)
  case Nil
  then show ?case by simp
next
  case (Cons x xs)
  show ?case
  proof (cases "f x = k")
    case True
    with Cons.prems(1) have "k \<notin> set (map f xs)" by simp
    then have "filter (\<lambda>x. f x = k) xs = []"
      by (simp add: filter_empty_conv image_iff) metis
    with True show ?thesis by simp
  next
    case False
    with Cons show ?thesis by simp
  qed
qed

lemma filter_key_nonempty:
  "k \<in> set (map f xs) \<Longrightarrow> filter (\<lambda>x. f x = k) xs \<noteq> []"
  by (induction xs) auto

lemma count_mset_map:
  "count (mset (map f xs)) c = length (filter (\<lambda>x. f x = c) xs)"
  by (induction xs) simp_all

lemma fold_max_ge: "(a::nat) \<le> fold max xs a"
proof (induction xs arbitrary: a)
  case Nil
  show ?case by simp
next
  case (Cons x xs)
  have "a \<le> max x a" by simp
  also have "max x a \<le> fold max xs (max x a)" by (rule Cons.IH)
  finally show ?case by simp
qed

lemma fold_max_mem: "(x::nat) \<in> set xs \<Longrightarrow> x \<le> fold max xs a"
proof (induction xs arbitrary: a)
  case Nil
  then show ?case by simp
next
  case (Cons y ys)
  show ?case
  proof (cases "x = y")
    case True
    have "x \<le> max y a" using True by simp
    also have "max y a \<le> fold max ys (max y a)" by (rule fold_max_ge)
    finally show ?thesis by simp
  next
    case False
    with Cons.prems have "x \<in> set ys" by simp
    then have "x \<le> fold max ys (max y a)" by (rule Cons.IH)
    then show ?thesis by simp
  qed
qed

lemma fresh_id_notin: "fresh_id ids \<notin> set ids"
proof
  assume "fresh_id ids \<in> set ids"
  then have "fresh_id ids \<le> fold max ids 0" by (rule fold_max_mem)
  then show False by (simp add: fresh_id_def)
qed

section \<open>Facts about the session gate\<close>

lemma get_user_Some_session:
  "get_user e s sess = (Some u, sess') \<Longrightarrow> sess' = sess"
  by (auto simp: get_user_def split: session.splits option.splits if_splits)

lemma session_auth_Some:
  "fst (get_user e s sess) = Some u \<Longrightarrow> session_auth e s sess handler = handler u"
  by (auto simp: session_auth_def split: prod.splits option.splits)

lemma get_user_SomeD:
  assumes "fst (get_user e s sess) = Some u"
  shows "sess = Authenticated (user_id u) (session_auth_hash e (password u))"
    and "find (\<lambda>r. user_id r = user_id u) (users s) = Some u"
    and "is_active u"
proof -
  from assms obtain uid h where sess: "sess = Authenticated uid h"
    by (cases sess) (simp_all add: get_user_def)
  from assms sess obtain r where f: "find (\<lambda>r. user_id r = uid) (users s) = Some r"
    by (cases "find (\<lambda>r. user_id r = uid) (users s)") (simp_all add: get_user_def)
  from assms sess f have ru: "r = u" and act: "is_active u"
     and h: "h = session_auth_hash e (password u)"
    by (simp_all add: get_user_def split: if_splits)
  from f have "user_id r = uid" by (rule find_Some_key)
  with ru have uid: "uid = user_id u" by simp
  from sess uid h show "sess = Authenticated (user_id u) (session_auth_hash e (password u))"
    by simp
  from f ru uid show "find (\<lambda>r. user_id r = user_id u) (users s) = Some u"
    by simp
  from act show "is_active u" .
qed

lemma get_user_fresh_hash:
  "find (\<lambda>r. user_id r = k) (users s) = Some r \<Longrightarrow> is_active r \<Longrightarrow>
   get_user e s (Authenticated k (session_auth_hash e (password r)))
     = (Some r, Authenticated k (session_auth_hash e (password r)))"
  by (simp add: get_user_def)

lemma get_user_stale_hash:
  "find (\<lambda>r. user_id r = k) (users s) = Some r \<Longrightarrow> is_active r \<Longrightarrow>
   h \<noteq> session_auth_hash e (password r) \<Longrightarrow>
   get_user e s (Authenticated k h) = (None, Anonymous)"
  by (simp add: get_user_def)

lemma get_user_alice: "get_user env0 store0 alice_session = (Some alice, alice_session)"
  by (simp add: get_user_def env0_def store0_def alice_session_def alice_def bob_def)

section \<open>Lift listing\<close>

text \<open>
  C8. Whoever the requester is, a lift listing holds exactly the lifts of the store
  whose owner is the requester: the request of an authenticated user \<open>a\<close> is answered
  200, every lift in the answer is owned by \<open>a\<close>, and none is owned by a user \<open>b\<close> with
  another primary key.
\<close>

theorem list_lifts_only_own:
  assumes "fst (get_user e s sess) = Some a"
  shows "status (list_lifts e s sess) = 200
       \<and> set (response_lifts (list_lifts e s sess))
           = {l \<in> set (lifts s). lift_user l = user_id a}
       \<and> (\<forall>l \<in> set (response_lifts (list_lifts e s sess)). lift_user l = user_id a)
       \<and> (user_id b \<noteq> user_id a \<longrightarrow>
           (\<forall>l \<in> set (response_lifts (list_lifts e s sess)). lift_user l \<noteq> user_id b))"
  using assms
  by (auto simp: list_lifts_def session_auth_Some status_def response_lifts_def)

theorem list_lifts_only_own_witness:
  "fst (get_user env0 store0 alice_session) = Some alice
   \<and> user_id bob \<noteq> user_id alice
   \<and> status (list_lifts env0 store0 alice_session) = 200
   \<and> lift_a1 \<in> set (response_lifts (list_lifts env0 store0 alice_session))
   \<and> lift_b1 \<notin> set (response_lifts (list_lifts env0 store0 alice_session))"
proof -
  have a: "fst (get_user env0 store0 alice_session) = Some alice"
    by (simp add: get_user_alice)
  have b: "user_id bob \<noteq> user_id alice"
    by (simp add: alice_def bob_def)
  have c: "lift_user lift_b1 = user_id bob" "lift_user lift_a1 = user_id alice"
          "lift_a1 \<in> set (lifts store0)"
    by (simp_all add: lift_b1_def lift_a1_def alice_def bob_def store0_def)
  note own = list_lifts_only_own [OF a, of bob]
  from own have st: "status (list_lifts env0 store0 alice_session) = 200"
    by (rule conjunct1)
  from own have eq: "set (response_lifts (list_lifts env0 store0 alice_session))
      = {l \<in> set (lifts store0). lift_user l = user_id alice}"
    by (rule conjunct1 [OF conjunct2])
  from c(2,3) have a1: "lift_a1 \<in> set (response_lifts (list_lifts env0 store0 alice_session))"
    unfolding eq by (rule_tac CollectI) (rule conjI)
  from own b
  have nb: "\<forall>l \<in> set (response_lifts (list_lifts env0 store0 alice_session)).
          lift_user l \<noteq> user_id bob"
    by (elim conjE) (erule (1) mp)
  have b1: "lift_b1 \<notin> set (response_lifts (list_lifts env0 store0 alice_session))"
  proof
    assume "lift_b1 \<in> set (response_lifts (list_lifts env0 store0 alice_session))"
    with nb have "lift_user lift_b1 \<noteq> user_id bob" by (rule bspec)
    with c(1) show False by (rule notE [rotated])
  qed
  from a b st a1 b1 show ?thesis
    by (intro conjI)
qed

lemma list_lifts_store0:
  "list_lifts env0 store0 alice_session
     = (store0, alice_session, (200, LiftList [lift_a1, lift_a2]))"
proof -
  have "list_lifts env0 store0 alice_session =
          (store0, alice_session,
           (200, LiftList (sort_key lift_date
              (filter (\<lambda>l. lift_user l = user_id alice) (lifts store0)))))"
    by (simp add: list_lifts_def session_auth_def get_user_alice)
  also have "filter (\<lambda>l. lift_user l = user_id alice) (lifts store0) = [lift_a2, lift_a1]"
    by (simp add: store0_def lift_a1_def lift_a2_def lift_b1_def alice_def)
  also have "sort_key lift_date [lift_a2, lift_a1] = [lift_a1, lift_a2]"
    by (simp add: lift_a1_def lift_a2_def)
  finally show ?thesis .
qed

text \<open>
  C1, as stated: the listing is ordered by date descending. The handler orders by
  \<^verbatim>\<open>"date"\<close>, not \<^verbatim>\<open>"-date"\<close>: for a user with a lift of day 738000 and a lift of day
  738002 the answer holds the older lift first, so it is not in descending order.
\<close>

theorem list_lifts_descending_counterexample:
  "status (list_lifts env0 store0 alice_session) = 200
   \<and> response_lifts (list_lifts env0 store0 alice_session) = [lift_a1, lift_a2]
   \<and> lift_date lift_a1 < lift_date lift_a2
   \<and> \<not> date_descending (response_lifts (list_lifts env0 store0 alice_session))"
  by (simp add: list_lifts_store0 status_def response_lifts_def date_descending_def
        lift_a1_def lift_a2_def)

text \<open>
  C1, amended: for every authenticated user the listing is answered 200 and holds the
  user's lifts, each as often as the store has it, ordered by date ascending (oldest
  date first).
\<close>

theorem list_lifts_date_ascending:
  assumes "fst (get_user e s sess) = Some a"
  shows "status (list_lifts e s sess) = 200
       \<and> date_ascending (response_lifts (list_lifts e s sess))
       \<and> mset (response_lifts (list_lifts e s sess))
           = mset (filter (\<lambda>l. lift_user l = user_id a) (lifts s))"
  using assms
  by (simp add: list_lifts_def session_auth_Some status_def response_lifts_def
        date_ascending_def)

theorem list_lifts_date_ascending_witness:
  "fst (get_user env0 store0 alice_session) = Some alice
   \<and> status (list_lifts env0 store0 alice_session) = 200
   \<and> date_ascending (response_lifts (list_lifts env0 store0 alice_session))
   \<and> response_lifts (list_lifts env0 store0 alice_session) = [lift_a1, lift_a2]"
proof -
  have a: "fst (get_user env0 store0 alice_session) = Some alice"
    by (simp add: get_user_alice)
  from list_lifts_date_ascending [OF a] a show ?thesis
    by (simp add: list_lifts_store0 response_lifts_def)
qed

section \<open>Lift creation\<close>

text \<open>
  C5. For an authenticated requester: when \<open>exercise_id\<close> is the key of no exercise
  row, \<open>create_lift\<close> answers 404 with detail "Exercise not found." and leaves the store
  as it was; when it is the key of one, \<open>create_lift\<close> appends one lift row owned by the
  requester, carrying the fields of the payload, and answers 201.
\<close>

theorem create_lift_exercise_lookup:
  assumes "fst (get_user e s sess) = Some u"
  shows "(cl_exercise_id p \<notin> set (map exercise_id (exercises s)) \<longrightarrow>
            create_lift e s sess p = (s, sess, (404, Detail ''Exercise not found.'')))
       \<and> (cl_exercise_id p \<in> set (map exercise_id (exercises s)) \<longrightarrow>
            create_lift e s sess p =
              (s\<lparr>lifts := lifts s @
                  [\<lparr> lift_id = fresh_id (map lift_id (lifts s)),
                     lift_user = user_id u,
                     lift_date = cl_date p,
                     lift_exercise = cl_exercise_id p,
                     repetitions = cl_repetitions p,
                     weight = cl_weight p \<rparr>]\<rparr>,
               sess,
               (201, Detail ''Lift created successfully.'')))"
proof (cases "find (\<lambda>x. exercise_id x = cl_exercise_id p) (exercises s)")
  case None
  then have "cl_exercise_id p \<notin> set (map exercise_id (exercises s))"
    using find_None_map [of exercise_id "cl_exercise_id p" "exercises s"] by simp
  with None assms show ?thesis
    by (simp add: create_lift_def session_auth_Some)
next
  case (Some x)
  then have k: "exercise_id x = cl_exercise_id p"
    by (rule find_Some_key)
  from Some have "find (\<lambda>x. exercise_id x = cl_exercise_id p) (exercises s) \<noteq> None"
    by simp
  then have "cl_exercise_id p \<in> set (map exercise_id (exercises s))"
    using find_None_map [of exercise_id "cl_exercise_id p" "exercises s"] by simp
  with Some k assms show ?thesis
    by (simp add: create_lift_def session_auth_Some)
qed

theorem create_lift_exercise_lookup_witness:
  "fst (get_user env0 store0 alice_session) = Some alice
   \<and> cl_exercise_id missing_payload \<notin> set (map exercise_id (exercises store0))
   \<and> create_lift env0 store0 alice_session missing_payload
       = (store0, alice_session, (404, Detail ''Exercise not found.''))
   \<and> cl_exercise_id squat_payload \<in> set (map exercise_id (exercises store0))
   \<and> status (create_lift env0 store0 alice_session squat_payload) = 201
   \<and> map lift_user (lifts (store_after (create_lift env0 store0 alice_session squat_payload)))
       = [1, 2, 1, 1]"
proof -
  have a: "fst (get_user env0 store0 alice_session) = Some alice"
    by (simp add: get_user_alice)
  have m: "cl_exercise_id missing_payload \<notin> set (map exercise_id (exercises store0))"
    by (simp add: missing_payload_def store0_def squat_def)
  have k: "cl_exercise_id squat_payload \<in> set (map exercise_id (exercises store0))"
    by (simp add: squat_payload_def store0_def squat_def)
  have r1: "create_lift env0 store0 alice_session missing_payload
              = (store0, alice_session, (404, Detail ''Exercise not found.''))"
    using create_lift_exercise_lookup [OF a, of missing_payload] m by simp
  have r2: "create_lift env0 store0 alice_session squat_payload =
              (store0\<lparr>lifts := lifts store0 @
                  [\<lparr> lift_id = fresh_id (map lift_id (lifts store0)),
                     lift_user = user_id alice,
                     lift_date = cl_date squat_payload,
                     lift_exercise = cl_exercise_id squat_payload,
                     repetitions = cl_repetitions squat_payload,
                     weight = cl_weight squat_payload \<rparr>]\<rparr>,
               alice_session,
               (201, Detail ''Lift created successfully.''))"
    using create_lift_exercise_lookup [OF a, of squat_payload] k by simp
  have st: "status (create_lift env0 store0 alice_session squat_payload) = 201"
    by (simp add: r2 status_def)
  have ow: "map lift_user (lifts (store_after (create_lift env0 store0 alice_session squat_payload)))
       = [1, 2, 1, 1]"
    unfolding r2
    by (simp add: store_after_def store0_def lift_a1_def lift_a2_def lift_b1_def alice_def)
  from a m r1 k st ow show ?thesis
    by (intro conjI)
qed

section \<open>Login and logout\<close>

text \<open>
  C6. A login whose credentials \<open>authenticate\<close> rejects is answered 400 with detail
  "Invalid credentials."; store and session are left as they were, so on an anonymous
  session the following current-user request is answered 401.
\<close>

theorem login_invalid_credentials:
  assumes "authenticate e s (login_username p) (login_password p) = None"
  shows "login e s sess p = (s, sess, (400, Detail ''Invalid credentials.''))
       \<and> (sess = Anonymous \<longrightarrow>
            retrieve_current_user e (store_after (login e s sess p))
                (session_after (login e s sess p))
              = (s, Anonymous, (401, Detail ''Unauthorized'')))"
  using assms
  by (simp add: login_def retrieve_current_user_def session_auth_def get_user_def
        store_after_def session_after_def unauthorized_def)

theorem login_invalid_credentials_witness:
  "authenticate env0 store0 (login_username wrong_login) (login_password wrong_login) = None
   \<and> login env0 store0 Anonymous wrong_login
       = (store0, Anonymous, (400, Detail ''Invalid credentials.''))
   \<and> retrieve_current_user env0 (store_after (login env0 store0 Anonymous wrong_login))
         (session_after (login env0 store0 Anonymous wrong_login))
       = (store0, Anonymous, (401, Detail ''Unauthorized''))"
proof -
  have a: "authenticate env0 store0 (login_username wrong_login) (login_password wrong_login)
             = None"
    by (simp add: authenticate_def env0_def store0_def wrong_login_def alice_def)
  note th = login_invalid_credentials [OF a, of Anonymous]
  from th have r: "login env0 store0 Anonymous wrong_login
       = (store0, Anonymous, (400, Detail ''Invalid credentials.''))"
    by (rule conjunct1)
  from th have "Anonymous = Anonymous \<longrightarrow>
      retrieve_current_user env0 (store_after (login env0 store0 Anonymous wrong_login))
         (session_after (login env0 store0 Anonymous wrong_login))
       = (store0, Anonymous, (401, Detail ''Unauthorized''))"
    by (rule conjunct2)
  then have q: "retrieve_current_user env0 (store_after (login env0 store0 Anonymous wrong_login))
         (session_after (login env0 store0 Anonymous wrong_login))
       = (store0, Anonymous, (401, Detail ''Unauthorized''))"
    by (rule mp) (rule refl)
  from a r q show ?thesis
    by (intro conjI)
qed

text \<open>
  C9. From every session, anonymous or authenticated, \<open>logout\<close> ends in the anonymous
  session with the answer 200 "Success."; a second logout gives the same store, session
  and answer as the first, and the session it leaves resolves to no user.
\<close>

theorem logout_idempotent:
  "logout e s sess = (s, Anonymous, (200, Detail ''Success.''))
   \<and> logout e (store_after (logout e s sess)) (session_after (logout e s sess))
       = logout e s sess
   \<and> fst (get_user e (store_after (logout e s sess)) (session_after (logout e s sess)))
       = None"
  by (simp add: logout_def django_logout_def store_after_def session_after_def get_user_def)

section \<open>Password change\<close>

text \<open>
  C10. When the current password checks and the validator has messages for the new
  one, \<open>change_password\<close> answers 400 with the messages joined by spaces, and store and
  session are exactly as before: no row was saved, the stored hash is the old one.
\<close>

theorem change_password_weak_new_password:
  assumes "fst (get_user e s sess) = Some u"
      and "check_password e (current_password p) (password u)"
      and "validate_password e (new_password p) \<noteq> []"
  shows "change_password e s sess p
           = (s, sess, (400, Detail (join_messages (validate_password e (new_password p)))))"
  using assms
  by (simp add: change_password_def session_auth_Some exception_response_def
           split: list.splits)

theorem change_password_weak_new_password_witness:
  "fst (get_user env0 store0 alice_session) = Some alice
   \<and> check_password env0 (current_password weak_change) (password alice)
   \<and> validate_password env0 (new_password weak_change) \<noteq> []
   \<and> change_password env0 store0 alice_session weak_change
       = (store0, alice_session, (400, Detail ''This password is too short.''))"
proof -
  have a: "fst (get_user env0 store0 alice_session) = Some alice"
    by (simp add: get_user_alice)
  have c: "check_password env0 (current_password weak_change) (password alice)"
    by (simp add: env0_def weak_change_def alice_def)
  have v: "validate_password env0 (new_password weak_change) = [''This password is too short.'']"
    by (simp add: env0_def weak_change_def)
  then have v': "validate_password env0 (new_password weak_change) \<noteq> []"
    by simp
  have r: "change_password env0 store0 alice_session weak_change
       = (store0, alice_session, (400, Detail ''This password is too short.''))"
    using change_password_weak_new_password [OF a c v'] by (simp add: v)
  from a c v' r show ?thesis
    by (intro conjI)
qed

lemma users_save_existing:
  assumes "find (\<lambda>r. user_id r = user_id u) (users s) = Some u0"
  shows "users (save u s) = map (\<lambda>r. if user_id r = user_id u then u else r) (users s)"
  using find_Some_filter [OF assms] by (simp add: save_def)

lemma find_saved_user:
  assumes "find (\<lambda>r. user_id r = user_id u) (users s) = Some u"
  shows "find (\<lambda>r. user_id r = user_id u) (users (save (u\<lparr>password := h\<rparr>) s))
           = Some (u\<lparr>password := h\<rparr>)"
proof -
  have "users (save (u\<lparr>password := h\<rparr>) s)
          = map (\<lambda>r. if user_id r = user_id u then u\<lparr>password := h\<rparr> else r) (users s)"
    using users_save_existing [of "u\<lparr>password := h\<rparr>" s u] assms by simp
  then show ?thesis
    using find_map_replace [OF assms, of "u\<lparr>password := h\<rparr>"] by simp
qed

lemma change_password_success:
  assumes "fst (get_user e s sess) = Some u"
      and "check_password e (current_password p) (password u)"
      and "validate_password e (new_password p) = []"
  shows "change_password e s sess p =
           (save (u\<lparr>password := make_password e (new_password p)\<rparr>) s,
            Authenticated (user_id u) (session_auth_hash e (make_password e (new_password p))),
            (200, Detail ''Password changed successfully.''))"
proof -
  note d = get_user_SomeD [OF assms(1)]
  have "change_password e s sess p =
           (save (u\<lparr>password := make_password e (new_password p)\<rparr>) s,
            update_session_auth_hash e sess (u\<lparr>password := make_password e (new_password p)\<rparr>),
            (200, Detail ''Password changed successfully.''))"
    using assms by (simp add: change_password_def session_auth_Some Let_def)
  also have "update_session_auth_hash e sess (u\<lparr>password := make_password e (new_password p)\<rparr>)
      = Authenticated (user_id u) (session_auth_hash e (make_password e (new_password p)))"
    by (subst d(1)) (simp add: update_session_auth_hash_def)
  finally show ?thesis .
qed

text \<open>
  Without the last statement of \<open>change_password\<close> the session would be lost: the
  session as it was before the request no longer resolves to the user once the stored
  hash has a different digest.
\<close>

lemma stale_session_rejected:
  assumes "fst (get_user e s sess) = Some u"
      and "check_password e (current_password p) (password u)"
      and "validate_password e (new_password p) = []"
      and "session_auth_hash e (password u)
             \<noteq> session_auth_hash e (make_password e (new_password p))"
  shows "get_user e (store_after (change_password e s sess p)) sess = (None, Anonymous)"
proof -
  note d = get_user_SomeD [OF assms(1)]
  have f: "find (\<lambda>r. user_id r = user_id u)
             (users (store_after (change_password e s sess p)))
           = Some (u\<lparr>password := make_password e (new_password p)\<rparr>)"
    by (simp add: change_password_success [OF assms(1-3)] store_after_def
          find_saved_user [OF d(2)])
  have "get_user e (store_after (change_password e s sess p))
          (Authenticated (user_id u) (session_auth_hash e (password u))) = (None, Anonymous)"
    using get_user_stale_hash [OF f, of "session_auth_hash e (password u)" e] d(3) assms(4)
    by simp
  then show ?thesis
    by (subst (2) d(1))
qed

text \<open>
  C7. A change-password request with the right current password and a new password
  the validator accepts is answered 200; the user's row then holds the hash of the new
  password, and the session the request leaves behind still resolves to that user, so
  a following request behind the session gate (the current-user request) is answered
  200.
\<close>

theorem change_password_keeps_session:
  assumes "fst (get_user e s sess) = Some u"
      and "check_password e (current_password p) (password u)"
      and "validate_password e (new_password p) = []"
  shows "status (change_password e s sess p) = 200
       \<and> detail (change_password e s sess p) = ''Password changed successfully.''
       \<and> find (\<lambda>r. user_id r = user_id u) (users (store_after (change_password e s sess p)))
           = Some (u\<lparr>password := make_password e (new_password p)\<rparr>)
       \<and> fst (get_user e (store_after (change_password e s sess p))
                 (session_after (change_password e s sess p)))
           = Some (u\<lparr>password := make_password e (new_password p)\<rparr>)
       \<and> status (retrieve_current_user e (store_after (change_password e s sess p))
                 (session_after (change_password e s sess p))) = 200"
proof -
  let ?u' = "u\<lparr>password := make_password e (new_password p)\<rparr>"
  let ?out = "change_password e s sess p"
  note d = get_user_SomeD [OF assms(1)]
  note out = change_password_success [OF assms]
  have st: "status ?out = 200" and dt: "detail ?out = ''Password changed successfully.''"
    by (simp_all add: out status_def detail_def)
  have f: "find (\<lambda>r. user_id r = user_id u) (users (store_after ?out)) = Some ?u'"
    by (simp add: out store_after_def find_saved_user [OF d(2)])
  have se: "session_after ?out = Authenticated (user_id u) (session_auth_hash e (password ?u'))"
    by (simp add: out session_after_def)
  have g: "fst (get_user e (store_after ?out) (session_after ?out)) = Some ?u'"
    unfolding se using get_user_fresh_hash [OF f, of e] d(3) by simp
  have r: "status (retrieve_current_user e (store_after ?out) (session_after ?out)) = 200"
    by (simp add: retrieve_current_user_def session_auth_Some [OF g] status_def)
  from st dt f g r show ?thesis
    by (intro conjI)
qed

theorem change_password_keeps_session_witness:
  "fst (get_user env0 store0 alice_session) = Some alice
   \<and> check_password env0 (current_password strong_change) (password alice)
   \<and> validate_password env0 (new_password strong_change) = []
   \<and> status (change_password env0 store0 alice_session strong_change) = 200
   \<and> fst (get_user env0 (store_after (change_password env0 store0 alice_session strong_change))
             (session_after (change_password env0 store0 alice_session strong_change)))
       = Some (alice\<lparr>password := ''pbkdf2$correct horse''\<rparr>)
   \<and> status (retrieve_current_user env0
               (store_after (change_password env0 store0 alice_session strong_change))
               (session_after (change_password env0 store0 alice_session strong_change))) = 200"
proof -
  have a: "fst (get_user env0 store0 alice_session) = Some alice"
    by (simp add: get_user_alice)
  have c: "check_password env0 (current_password strong_change) (password alice)"
    by (simp add: env0_def strong_change_def alice_def)
  have v: "validate_password env0 (new_password strong_change) = []"
    by (simp add: env0_def strong_change_def)
  have m: "make_password env0 (new_password strong_change) = ''pbkdf2$correct horse''"
    by (simp add: env0_def strong_change_def)
  note th = change_password_keeps_session [OF a c v]
  from th have st: "status (change_password env0 store0 alice_session strong_change) = 200"
    by (rule conjunct1)
  from th have g: "fst (get_user env0
             (store_after (change_password env0 store0 alice_session strong_change))
             (session_after (change_password env0 store0 alice_session strong_change)))
       = Some (alice\<lparr>password := ''pbkdf2$correct horse''\<rparr>)"
    unfolding m by (elim conjE)
  from th have r: "status (retrieve_current_user env0
               (store_after (change_password env0 store0 alice_session strong_change))
               (session_after (change_password env0 store0 alice_session strong_change))) = 200"
    by (elim conjE)
  from a c v st g r show ?thesis
    by (intro conjI)
qed

section \<open>Registration with a username in use\<close>

text \<open>
  C4. A registration whose username is the username of a user row is answered 400 with
  detail "Username is already used." and returns the store as it was: the check comes
  before any insert. With usernames unique in the store, exactly one row has that
  username afterwards.
\<close>

theorem create_user_username_taken:
  assumes "cu_username p \<in> set (map username (users s))"
  shows "create_user e s sess p = (s, sess, (400, Detail ''Username is already used.''))
       \<and> (usernames_unique s \<longrightarrow>
            length (filter (\<lambda>u. username u = cu_username p)
                      (users (store_after (create_user e s sess p)))) = 1)"
proof -
  have r: "create_user e s sess p = (s, sess, (400, Detail ''Username is already used.''))"
    using filter_key_nonempty [OF assms] by (simp add: create_user_def)
  have "usernames_unique s \<longrightarrow>
          length (filter (\<lambda>u. username u = cu_username p) (users s)) = 1"
    using assms by (simp add: usernames_unique_def length_filter_distinct_key)
  then show ?thesis
    unfolding r by (simp add: store_after_def)
qed

theorem create_user_username_taken_witness:
  "cu_username alice_payload \<in> set (map username (users store0))
   \<and> usernames_unique store0
   \<and> create_user env0 store0 Anonymous alice_payload
       = (store0, Anonymous, (400, Detail ''Username is already used.''))
   \<and> length (filter (\<lambda>u. username u = cu_username alice_payload)
         (users (store_after (create_user env0 store0 Anonymous alice_payload)))) = 1"
proof -
  have a: "cu_username alice_payload \<in> set (map username (users store0))"
    by (simp add: alice_payload_def store0_def alice_def)
  have u: "usernames_unique store0"
    by (simp add: usernames_unique_def store0_def alice_def bob_def)
  note th = create_user_username_taken [OF a, of env0 Anonymous]
  from th have r: "create_user env0 store0 Anonymous alice_payload
       = (store0, Anonymous, (400, Detail ''Username is already used.''))"
    by (rule conjunct1)
  from th u have n: "length (filter (\<lambda>u. username u = cu_username alice_payload)
         (users (store_after (create_user env0 store0 Anonymous alice_payload)))) = 1"
    by (elim conjE) (erule (1) mp)
  from a u r n show ?thesis
    by (intro conjI)
qed

section \<open>Registration is atomic\<close>

lemma atomic_Inl: "snd (block s) = Inl ex \<Longrightarrow> atomic block s = (s, Inl ex)"
  by (cases "block s") (simp add: atomic_def)

lemma atomic_Inr: "snd (block s) = Inr v \<Longrightarrow> atomic block s = (fst (block s), Inr v)"
  by (cases "block s") (simp add: atomic_def)

lemma atomic_rollback: "atomic block s = (s', Inl ex) \<Longrightarrow> s' = s"
  by (cases "block s") (auto simp: atomic_def split: sum.splits)

lemma create_user_failure_unchanged:
  assumes ne: "status (create_user e s sess p) \<noteq> 201"
  shows "store_after (create_user e s sess p) = s"
proof (cases "filter (\<lambda>u. username u = cu_username p) (users s) = []")
  case False
  then show ?thesis
    by (simp add: create_user_def store_after_def)
next
  case True
  obtain s' r where a: "atomic (registration_block e p) s = (s', r)"
    by (cases "atomic (registration_block e p) s")
  show ?thesis
  proof (cases r)
    case (Inl ex)
    with a have "s' = s" by (simp add: atomic_rollback)
    with True a Inl show ?thesis
      by (simp add: create_user_def store_after_def)
  next
    case (Inr v)
    with True a have "status (create_user e s sess p) = 201"
      by (simp add: create_user_def status_def)
    with ne show ?thesis by simp
  qed
qed

text \<open>
  C2. A registration that is not answered 201 returns the store it was given. In
  particular, when no row has the username and the block under
  \<^verbatim>\<open>transaction.atomic()\<close> stops with an exception, at whatever statement and after
  whatever writes, \<open>create_user\<close> returns the store as it was before the block,
  together with the response the exception maps to: no user row and no grant of the
  failed registration remains.
\<close>

theorem create_user_atomic:
  "(status (create_user e s sess p) \<noteq> 201 \<longrightarrow> store_after (create_user e s sess p) = s)
   \<and> (filter (\<lambda>u. username u = cu_username p) (users s) = [] \<longrightarrow>
        snd (registration_block e p s) = Inl ex \<longrightarrow>
        create_user e s sess p = (s, sess, exception_response ex))"
proof (intro conjI impI)
  assume "status (create_user e s sess p) \<noteq> 201"
  then show "store_after (create_user e s sess p) = s"
    by (rule create_user_failure_unchanged)
next
  assume "filter (\<lambda>u. username u = cu_username p) (users s) = []"
     and "snd (registration_block e p s) = Inl ex"
  then show "create_user e s sess p = (s, sess, exception_response ex)"
    by (simp add: create_user_def atomic_Inl)
qed

text \<open>
  In a store without the \<^verbatim>\<open>view_lift\<close> permission the block has inserted the user row
  and five grants when the sixth lookup raises.
\<close>

lemma registration_block_store1:
  "registration_block env0 carol_payload store1 =
     (store1\<lparr>users := [alice, carol\<lparr>user_id := 2\<rparr>],
             user_permissions := [(2, 1), (2, 3), (2, 4), (2, 5), (2, 6)]\<rparr>,
      Inl DoesNotExist)"
  by (simp add: registration_block_def objects_create_user_def env0_def carol_payload_def
        store1_def alice_def carol_def fresh_id_def registration_codenames_def
        permission_get_def permission_table_def user_permissions_add_def Let_def)

theorem create_user_atomic_witness:
  "filter (\<lambda>u. username u = cu_username carol_payload) (users store1) = []
   \<and> snd (registration_block env0 carol_payload store1) = Inl DoesNotExist
   \<and> length (users (fst (registration_block env0 carol_payload store1))) = 2
   \<and> length (user_permissions (fst (registration_block env0 carol_payload store1))) = 5
   \<and> create_user env0 store1 Anonymous carol_payload
       = (store1, Anonymous, (500, Detail ''Server Error''))
   \<and> status (create_user env0 store1 Anonymous carol_payload) \<noteq> 201
   \<and> store_after (create_user env0 store1 Anonymous carol_payload) = store1"
proof -
  have f: "filter (\<lambda>u. username u = cu_username carol_payload) (users store1) = []"
    by (simp add: carol_payload_def store1_def alice_def)
  have b: "snd (registration_block env0 carol_payload store1) = Inl DoesNotExist"
    by (simp add: registration_block_store1)
  have n: "length (users (fst (registration_block env0 carol_payload store1))) = 2"
          "length (user_permissions (fst (registration_block env0 carol_payload store1))) = 5"
    by (simp_all add: registration_block_store1)
  note th = create_user_atomic [of env0 store1 Anonymous carol_payload DoesNotExist]
  from th f b have r: "create_user env0 store1 Anonymous carol_payload
       = (store1, Anonymous, exception_response DoesNotExist)"
    by (elim conjE) (erule mp [OF mp])
  then have r': "create_user env0 store1 Anonymous carol_payload
       = (store1, Anonymous, (500, Detail ''Server Error''))"
    by (simp add: exception_response_def)
  have st: "status (create_user env0 store1 Anonymous carol_payload) \<noteq> 201"
    unfolding r' by (simp add: status_def)
  from th st have un: "store_after (create_user env0 store1 Anonymous carol_payload) = store1"
    by (elim conjE) (erule (1) mp)
  from f b n r' st un show ?thesis
    by (intro conjI)
qed

section \<open>The permissions of a new user\<close>

lemma permission_get_InrD:
  "permission_get c s = Inr q \<Longrightarrow> filter (\<lambda>p. codename p = c) (permissions s) = [q]"
  by (simp add: permission_get_def split: list.splits)

lemma user_permissions_add_frame:
  "users (user_permissions_add uid q s) = users s"
  "permissions (user_permissions_add uid q s) = permissions s"
  "exercises (user_permissions_add uid q s) = exercises s"
  "lifts (user_permissions_add uid q s) = lifts s"
  by (simp_all add: user_permissions_add_def)

lemma set_user_permissions_add:
  "set (user_permissions (user_permissions_add uid q s))
     = insert (uid, perm_id q) (set (user_permissions s))"
  by (auto simp: user_permissions_add_def)

lemma grant_frame:
  "grant uid cs s = (s', r) \<Longrightarrow>
   users s' = users s \<and> permissions s' = permissions s
   \<and> exercises s' = exercises s \<and> lifts s' = lifts s"
proof (induction cs arbitrary: s)
  case Nil
  then show ?case by simp
next
  case (Cons c cs)
  show ?case
  proof (cases "permission_get c s")
    case (Inl ex)
    with Cons.prems show ?thesis by simp
  next
    case (Inr q)
    with Cons.prems have "grant uid cs (user_permissions_add uid q s) = (s', r)"
      by simp
    from Cons.IH [OF this] show ?thesis
      by (simp add: user_permissions_add_frame)
  qed
qed

lemma grant_Inr:
  "grant uid cs s = (s', Inr v) \<Longrightarrow>
   set (user_permissions s')
     = set (user_permissions s)
       \<union> (\<lambda>q. (uid, perm_id q)) ` {q \<in> set (permissions s). codename q \<in> set cs}
   \<and> (\<forall>c \<in> set cs. length (filter (\<lambda>q. codename q = c) (permissions s)) = 1)"
proof (induction cs arbitrary: s)
  case Nil
  then show ?case by simp
next
  case (Cons c cs)
  show ?case
  proof (cases "permission_get c s")
    case (Inl ex)
    with Cons.prems show ?thesis by simp
  next
    case (Inr q)
    from permission_get_InrD [OF Inr]
    have one: "filter (\<lambda>p. codename p = c) (permissions s) = [q]" .
    then have "set (filter (\<lambda>p. codename p = c) (permissions s)) = {q}"
      by simp
    then have cq: "{p \<in> set (permissions s). codename p = c} = {q}"
      by simp
    from Inr Cons.prems have g: "grant uid cs (user_permissions_add uid q s) = (s', Inr v)"
      by simp
    from Cons.IH [OF g]
    have ih1: "set (user_permissions s')
        = insert (uid, perm_id q) (set (user_permissions s))
          \<union> (\<lambda>q. (uid, perm_id q)) ` {q \<in> set (permissions s). codename q \<in> set cs}"
     and ih2: "\<forall>c \<in> set cs. length (filter (\<lambda>q. codename q = c) (permissions s)) = 1"
      by (simp_all add: user_permissions_add_frame set_user_permissions_add)
    have split: "{p \<in> set (permissions s). codename p \<in> set (c # cs)}
        = {p \<in> set (permissions s). codename p = c}
          \<union> {p \<in> set (permissions s). codename p \<in> set cs}"
      by auto
    have "set (user_permissions s')
        = set (user_permissions s)
          \<union> (\<lambda>q. (uid, perm_id q)) ` {p \<in> set (permissions s). codename p \<in> set (c # cs)}"
      unfolding split cq ih1 by (simp add: image_Un)
    moreover have "\<forall>c' \<in> set (c # cs).
        length (filter (\<lambda>q. codename q = c') (permissions s)) = 1"
      using ih2 one by simp
    ultimately show ?thesis by (rule conjI)
  qed
qed

lemma exception_response_not_201: "fst (exception_response ex) \<noteq> 201"
  by (cases ex) (simp_all add: exception_response_def)

lemma create_user_201D:
  assumes "status (create_user e s sess p) = 201"
  shows "snd (registration_block e p s) = Inr ()"
    and "store_after (create_user e s sess p) = fst (registration_block e p s)"
proof -
  have nf: "filter (\<lambda>u. username u = cu_username p) (users s) = []"
  proof (rule ccontr)
    assume "filter (\<lambda>u. username u = cu_username p) (users s) \<noteq> []"
    then have "status (create_user e s sess p) = 400"
      by (simp add: create_user_def status_def)
    with assms show False by simp
  qed
  obtain s' r where b: "registration_block e p s = (s', r)"
    by (cases "registration_block e p s")
  have r: "r = Inr ()"
  proof (cases r)
    case (Inl ex)
    with b nf have "create_user e s sess p = (s, sess, exception_response ex)"
      by (simp add: create_user_def atomic_Inl)
    then have "status (create_user e s sess p) = fst (exception_response ex)"
      by (simp add: status_def)
    with assms exception_response_not_201 [of ex] show ?thesis by simp
  next
    case (Inr v)
    then show ?thesis by simp
  qed
  from b r show "snd (registration_block e p s) = Inr ()" by simp
  from b r nf show "store_after (create_user e s sess p) = fst (registration_block e p s)"
    by (simp add: create_user_def atomic_Inr store_after_def)
qed

lemma save_last:
  assumes "user_id u \<notin> set (map user_id xs)" and "users s = xs @ [u]"
  shows "save u s = s"
proof -
  have "map (\<lambda>r. if user_id r = user_id u then u else r) xs = xs"
  proof (rule map_idI)
    fix r assume "r \<in> set xs"
    then have "user_id r \<in> set (map user_id xs)" by simp
    with assms(1) have "user_id r \<noteq> user_id u" by metis
    then show "(if user_id r = user_id u then u else r) = r" by simp
  qed
  then have "map (\<lambda>r. if user_id r = user_id u then u else r) (users s) = users s"
    by (simp add: assms(2))
  moreover have "filter (\<lambda>r. user_id r = user_id u) (users s) \<noteq> []"
    by (simp add: assms(2))
  ultimately show ?thesis
    by (simp add: save_def)
qed

lemma held_codenames:
  fixes ps :: "permission list"
  assumes d: "distinct (map perm_id ps)" and dc: "distinct cs"
    and one: "\<forall>c \<in> set cs. length (filter (\<lambda>q. codename q = c) ps) = 1"
    and G: "G = G0 \<union> (\<lambda>q. (uid, perm_id q)) ` {q \<in> set ps. codename q \<in> set cs}"
    and fresh: "\<forall>x. (uid, x) \<notin> G0"
  shows "mset (map codename (filter (\<lambda>q. (uid, perm_id q) \<in> G) ps)) = mset cs"
proof -
  have inj: "inj_on perm_id (set ps)"
    using d by (simp add: distinct_map)
  have eq: "filter (\<lambda>q. (uid, perm_id q) \<in> G) ps = filter (\<lambda>q. codename q \<in> set cs) ps"
  proof (rule filter_cong [OF refl])
    fix q assume q: "q \<in> set ps"
    show "((uid, perm_id q) \<in> G) = (codename q \<in> set cs)"
    proof
      assume "(uid, perm_id q) \<in> G"
      with G fresh
      have "(uid, perm_id q) \<in> (\<lambda>q. (uid, perm_id q)) ` {q \<in> set ps. codename q \<in> set cs}"
        by simp
      then obtain q' where q': "q' \<in> set ps" "codename q' \<in> set cs" "perm_id q' = perm_id q"
        by auto
      from inj q'(3) q'(1) q have "q' = q" by (rule inj_onD)
      with q'(2) show "codename q \<in> set cs" by simp
    next
      assume "codename q \<in> set cs"
      with q have "q \<in> {q \<in> set ps. codename q \<in> set cs}" by simp
      then have "(uid, perm_id q) \<in> (\<lambda>q. (uid, perm_id q)) ` {q \<in> set ps. codename q \<in> set cs}"
        by (rule imageI)
      with G show "(uid, perm_id q) \<in> G" by simp
    qed
  qed
  have "count (mset (map codename (filter (\<lambda>q. codename q \<in> set cs) ps))) c
          = count (mset cs) c" for c
  proof (cases "c \<in> set cs")
    case True
    have f: "filter (\<lambda>x. codename x = c) (filter (\<lambda>q. codename q \<in> set cs) ps)
            = filter (\<lambda>q. codename q = c) ps"
      using True by (simp add: conj_commute cong: conj_cong)
    have "count (mset (map codename (filter (\<lambda>q. codename q \<in> set cs) ps))) c
            = length (filter (\<lambda>q. codename q = c) ps)"
      by (simp only: count_mset_map f)
    also from one True have "\<dots> = 1"
      by (rule bspec)
    finally have "count (mset (map codename (filter (\<lambda>q. codename q \<in> set cs) ps))) c = 1" .
    moreover from dc True have "count (mset cs) c = 1"
      by (simp add: distinct_count_atmost_1)
    ultimately show ?thesis by simp
  next
    case False
    have f: "filter (\<lambda>x. codename x = c) (filter (\<lambda>q. codename q \<in> set cs) ps) = []"
      using False by (auto simp: filter_empty_conv)
    have "count (mset (map codename (filter (\<lambda>q. codename q \<in> set cs) ps))) c = 0"
      by (simp only: count_mset_map f list.size)
    moreover from False have "count (mset cs) c = 0"
      by (simp add: count_mset_0_iff)
    ultimately show ?thesis by simp
  qed
  then have "mset (map codename (filter (\<lambda>q. codename q \<in> set cs) ps)) = mset cs"
    by (rule multiset_eqI)
  with eq show ?thesis by simp
qed

lemma registration_codenames_distinct: "distinct registration_codenames"
  by (simp add: registration_codenames_def)

lemma no_grant_of_fresh_user:
  assumes "grants_refer_to_users s"
  shows "(fresh_id (map user_id (users s)), x) \<notin> set (user_permissions s)"
proof
  assume "(fresh_id (map user_id (users s)), x) \<in> set (user_permissions s)"
  with assms have "fst (fresh_id (map user_id (users s)), x) \<in> set (map user_id (users s))"
    unfolding grants_refer_to_users_def list_all_iff by (rule bspec)
  then have "fresh_id (map user_id (users s)) \<in> set (map user_id (users s))"
    by simp
  with fresh_id_notin show False by metis
qed

lemma registration_success:
  assumes ok: "snd (registration_block e p s) = Inr ()"
  defines "u \<equiv> \<lparr> user_id = fresh_id (map user_id (users s)),
                  username = normalize_username e (cu_username p),
                  password = make_password e (cu_password p),
                  first_name = cu_first_name p,
                  last_name = cu_last_name p,
                  is_staff = True,
                  is_active = True \<rparr>"
  shows "grant (user_id u) registration_codenames (s\<lparr>users := users s @ [u]\<rparr>)
           = (fst (registration_block e p s), Inr ())"
    and "users (fst (registration_block e p s)) = users s @ [u]"
    and "permissions (fst (registration_block e p s)) = permissions s"
    and "username u \<notin> set (map username (users s))"
proof -
  let ?s1 = "s\<lparr>users := users s @ [u]\<rparr>"
  have oc: "objects_create_user e True (cu_first_name p) (cu_last_name p) (cu_username p)
              (cu_password p) s
            = (if username u \<in> set (map username (users s))
               then (s, Inl (IntegrityError (unique_violation e)))
               else (?s1, Inr u))"
    by (simp add: objects_create_user_def u_def Let_def)
  have nu: "username u \<notin> set (map username (users s))"
  proof
    assume "username u \<in> set (map username (users s))"
    with oc have "registration_block e p s = (s, Inl (IntegrityError (unique_violation e)))"
      by (simp add: registration_block_def)
    with ok show False by simp
  qed
  obtain s2 r where g: "grant (user_id u) registration_codenames ?s1 = (s2, r)"
    by (cases "grant (user_id u) registration_codenames ?s1")
  from oc nu g
  have blk: "registration_block e p s
               = (case r of Inl ex \<Rightarrow> (s2, Inl ex) | Inr _ \<Rightarrow> (save u s2, Inr ()))"
    by (simp add: registration_block_def)
  from ok blk have r: "r = Inr ()"
    by (cases r) simp_all
  from grant_frame [OF g] have fr: "users s2 = users s @ [u]" "permissions s2 = permissions s"
    by simp_all
  have "user_id u \<notin> set (map user_id (users s))"
    using fresh_id_notin [of "map user_id (users s)"] by (simp add: u_def)
  then have sv: "save u s2 = s2"
    using fr(1) by (rule save_last)
  from blk r sv have fs: "fst (registration_block e p s) = s2"
    by simp
  from g r fs show "grant (user_id u) registration_codenames ?s1
           = (fst (registration_block e p s), Inr ())"
    by simp
  from fs fr show "users (fst (registration_block e p s)) = users s @ [u]"
    and "permissions (fst (registration_block e p s)) = permissions s"
    by simp_all
  from nu show "username u \<notin> set (map username (users s))" .
qed

text \<open>The uniqueness of usernames is kept by every registration, whatever its outcome.\<close>

lemma create_user_usernames_unique:
  assumes "usernames_unique s"
  shows "usernames_unique (store_after (create_user e s sess p))"
proof (cases "status (create_user e s sess p) = 201")
  case True
  note D = create_user_201D [OF True]
  from registration_success(2,4) [OF D(1), folded D(2)] assms show ?thesis
    by (simp add: usernames_unique_def)
next
  case False
  then have "store_after (create_user e s sess p) = s"
    by (rule create_user_failure_unchanged)
  with assms show ?thesis by simp
qed

text \<open>
  C3. In a store whose permission rows have distinct keys and whose grants all refer
  to user rows, a registration answered 201 has appended exactly one user row; that
  row is marked staff, carries the normalised username of the request, and the
  codenames of the permissions it holds are the six codenames \<^verbatim>\<open>add_category\<close>,
  \<^verbatim>\<open>view_category\<close>, \<^verbatim>\<open>add_exercise\<close>, \<^verbatim>\<open>view_exercise\<close>, \<^verbatim>\<open>add_lift\<close>, \<^verbatim>\<open>view_lift\<close>,
  each once and no other.
\<close>

theorem create_user_grants_six:
  assumes "status (create_user e s sess p) = 201"
      and "permission_keys_distinct s"
      and "grants_refer_to_users s"
  shows "users (store_after (create_user e s sess p))
           = users s @ [last (users (store_after (create_user e s sess p)))]
       \<and> is_staff (last (users (store_after (create_user e s sess p))))
       \<and> username (last (users (store_after (create_user e s sess p))))
           = normalize_username e (cu_username p)
       \<and> mset (map codename
             (permissions_of (store_after (create_user e s sess p))
                (user_id (last (users (store_after (create_user e s sess p)))))))
           = mset registration_codenames"
proof -
  let ?s' = "store_after (create_user e s sess p)"
  define u where "u = \<lparr> user_id = fresh_id (map user_id (users s)),
                  username = normalize_username e (cu_username p),
                  password = make_password e (cu_password p),
                  first_name = cu_first_name p,
                  last_name = cu_last_name p,
                  is_staff = True,
                  is_active = True \<rparr>"
  note D = create_user_201D [OF assms(1)]
  note R = registration_success [OF D(1), folded u_def D(2)]
  from R(2) have us: "users ?s' = users s @ [u]" .
  then have l: "last (users ?s') = u" by simp
  have uid: "user_id u = fresh_id (map user_id (users s))"
    by (simp add: u_def)
  from grant_Inr [OF R(1)]
  have G: "set (user_permissions ?s')
      = set (user_permissions s)
        \<union> (\<lambda>q. (user_id u, perm_id q)) `
            {q \<in> set (permissions s). codename q \<in> set registration_codenames}"
   and one: "\<forall>c \<in> set registration_codenames.
               length (filter (\<lambda>q. codename q = c) (permissions s)) = 1"
    by simp_all
  have fresh: "\<forall>x. (user_id u, x) \<notin> set (user_permissions s)"
    unfolding uid using no_grant_of_fresh_user [OF assms(3)] by simp
  from assms(2) have d: "distinct (map perm_id (permissions s))"
    by (simp add: permission_keys_distinct_def)
  have "mset (map codename
          (filter (\<lambda>q. (user_id u, perm_id q) \<in> set (user_permissions ?s')) (permissions s)))
        = mset registration_codenames"
    using d registration_codenames_distinct one G fresh by (rule held_codenames)
  then have m: "mset (map codename (permissions_of ?s' (user_id u)))
                  = mset registration_codenames"
    by (simp add: permissions_of_def R(3))
  have "users ?s' = users s @ [last (users ?s')]"
    unfolding l by (rule us)
  moreover have "is_staff (last (users ?s'))"
    unfolding l by (simp add: u_def)
  moreover have "username (last (users ?s')) = normalize_username e (cu_username p)"
    unfolding l by (simp add: u_def)
  moreover have "mset (map codename (permissions_of ?s' (user_id (last (users ?s')))))
                   = mset registration_codenames"
    unfolding l by (rule m)
  ultimately show ?thesis
    by (intro conjI)
qed

lemma registration_block_store0:
  "registration_block env0 carol_payload store0 =
     (store0\<lparr>users := [alice, bob, carol],
             user_permissions :=
               [(1, 1), (2, 8), (3, 1), (3, 3), (3, 4), (3, 5), (3, 6), (3, 8)]\<rparr>,
      Inr ())"
  by (simp add: registration_block_def objects_create_user_def env0_def carol_payload_def
        store0_def alice_def bob_def carol_def fresh_id_def registration_codenames_def
        permission_get_def permission_table_def user_permissions_add_def save_def Let_def)

lemma create_user_store0:
  "create_user env0 store0 Anonymous carol_payload =
     (store0\<lparr>users := [alice, bob, carol],
             user_permissions :=
               [(1, 1), (2, 8), (3, 1), (3, 3), (3, 4), (3, 5), (3, 6), (3, 8)]\<rparr>,
      Anonymous, (201, Detail ''Success.''))"
proof -
  have "filter (\<lambda>u. username u = cu_username carol_payload) (users store0) = []"
    by (simp add: carol_payload_def store0_def alice_def bob_def)
  moreover have "atomic (registration_block env0 carol_payload) store0
                   = registration_block env0 carol_payload store0"
    by (simp add: atomic_def registration_block_store0)
  ultimately show ?thesis
    by (simp add: create_user_def registration_block_store0)
qed

theorem create_user_grants_six_witness:
  "status (create_user env0 store0 Anonymous carol_payload) = 201
   \<and> permission_keys_distinct store0
   \<and> grants_refer_to_users store0
   \<and> last (users (store_after (create_user env0 store0 Anonymous carol_payload))) = carol
   \<and> is_staff (last (users (store_after (create_user env0 store0 Anonymous carol_payload))))
   \<and> mset (map codename
         (permissions_of (store_after (create_user env0 store0 Anonymous carol_payload))
            (user_id (last (users (store_after
               (create_user env0 store0 Anonymous carol_payload)))))))
       = mset registration_codenames
   \<and> map codename
         (permissions_of (store_after (create_user env0 store0 Anonymous carol_payload)) 3)
       = [''add_category'', ''view_category'', ''add_exercise'', ''view_exercise'',
          ''add_lift'', ''view_lift'']"
proof -
  have st: "status (create_user env0 store0 Anonymous carol_payload) = 201"
    by (simp add: create_user_store0 status_def)
  have pk: "permission_keys_distinct store0"
    by (simp add: permission_keys_distinct_def store0_def permission_table_def)
  have fk: "grants_refer_to_users store0"
    by (simp add: grants_refer_to_users_def store0_def alice_def bob_def)
  note th = create_user_grants_six [OF st pk fk]
  have l: "last (users (store_after (create_user env0 store0 Anonymous carol_payload))) = carol"
    by (simp add: create_user_store0 store_after_def)
  from th have sf: "is_staff (last (users (store_after
      (create_user env0 store0 Anonymous carol_payload))))"
    by (elim conjE)
  from th have ms: "mset (map codename
         (permissions_of (store_after (create_user env0 store0 Anonymous carol_payload))
            (user_id (last (users (store_after
               (create_user env0 store0 Anonymous carol_payload)))))))
       = mset registration_codenames"
    by (elim conjE)
  have ev: "map codename
         (permissions_of (store_after (create_user env0 store0 Anonymous carol_payload)) 3)
       = [''add_category'', ''view_category'', ''add_exercise'', ''view_exercise'',
          ''add_lift'', ''view_lift'']"
    unfolding create_user_store0
    by (simp add: store_after_def permissions_of_def store0_def permission_table_def)
  from st pk fk l sf ms ev show ?thesis
    by (intro conjI)
qed

end
